theory Spec2Isabelle
  imports Complex_Main
begin

section \<open>Text helpers of the Python runtime\<close>

text \<open>
  Python text is modelled as \<^typ>\<open>string\<close>, one \<^typ>\<open>char\<close> per code point, which
  covers the code points below 256. \<open>is_space\<close> is \<open>str.isspace\<close> on that range,
  \<open>strip\<close> is \<open>str.strip()\<close> without argument, \<open>split_on\<close> is \<open>str.split(sep)\<close> for
  a one-character separator (it always returns at least one field), and \<open>lower_chr\<close> is
  \<open>str.lower\<close> on one character.
\<close>

definition is_space :: "char \<Rightarrow> bool" where
  "is_space c = ((of_char c :: nat) \<in> {9, 10, 11, 12, 13, 28, 29, 30, 31, 32, 133, 160})"

definition strip :: "string \<Rightarrow> string" where
  "strip s = rev (dropWhile is_space (rev (dropWhile is_space s)))"

fun split_on :: "char \<Rightarrow> string \<Rightarrow> string list" where
  "split_on sep [] = [[]]"
| "split_on sep (c # cs) =
     (if c = sep then [] # split_on sep cs
      else (case split_on sep cs of [] \<Rightarrow> [[c]] | w # ws \<Rightarrow> (c # w) # ws))"

definition lower_chr :: "char \<Rightarrow> char" where
  "lower_chr c =
     (let n = (of_char c :: nat)
      in if (65 \<le> n \<and> n \<le> 90) \<or> (192 \<le> n \<and> n \<le> 222 \<and> n \<noteq> 215)
         then char_of (n + 32) else c)"

definition lower :: "string \<Rightarrow> string" where
  "lower s = map lower_chr s"

definition startswith :: "string \<Rightarrow> string \<Rightarrow> bool" where
  "startswith s p = (take (length p) s = p)"

text \<open>
  Iterating over a file opened in text mode yields its lines, each with its terminator;
  with universal newlines the terminators \<open>\n\<close>, \<open>\r\n\<close> and \<open>\r\<close> are all read as
  \<open>\n\<close>. A last line without terminator is yielded as it is.
\<close>

fun file_lines :: "string \<Rightarrow> string list" where
  "file_lines [] = []"
| "file_lines (c # cs) =
     (if c = CHR 0x0A then [CHR 0x0A] # file_lines cs
      else if c = CHR 0x0D then
        (case cs of
           [] \<Rightarrow> [[CHR 0x0A]]
         | d # ds \<Rightarrow> if d = CHR 0x0A then [CHR 0x0A] # file_lines ds
                    else [CHR 0x0A] # file_lines cs)
      else (case file_lines cs of [] \<Rightarrow> [[c]] | l # ls \<Rightarrow> (c # l) # ls))"

text \<open>
  UTF-8 encoding of a text whose code points are below 256: one byte below 128, two
  bytes from 128 on.
\<close>

definition utf8_encode :: "string \<Rightarrow> string" where
  "utf8_encode s =
     concat (map (\<lambda>c. let n = (of_char c :: nat)
                        in if n < 128 then [c]
                           else [char_of (192 + n div 64), char_of (128 + n mod 64)]) s)"

text \<open>
  The exceptions of the model: \<open>ValueError\<close> is raised by the repository's own code (and
  by unpacking), \<open>DatabaseError\<close> stands for any exception of the sqlite3 engine.
\<close>

datatype pyerror = ValueError | DatabaseError

section \<open>auth.py\<close>

subsection \<open>The bcrypt primitive\<close>

text \<open>
  Modelled from the spec: the bcrypt library (\<open>gensalt\<close>, \<open>hashpw\<close>, \<open>checkpw\<close>), which
  auth.py imports and which is no part of the repository. The spec describes the hash as
  "an opaque string encoding both salt and digest" and verification as recomputing "the
  digest using the salt embedded in hash" and comparing. In bcrypt's format the salt is
  the first 29 characters (\<open>$2b$12$\<close> and 22 characters drawn at random), and the digest
  follows it. The key derivation itself is the parameter \<open>kdf\<close> (password bytes and salt
  to digest), and the random draw of \<open>gensalt\<close> is the explicit argument \<open>rnd\<close>. A salt
  shorter than 29 characters is rejected; the other format checks of the library are
  not modelled. Hashes are ASCII, so their bytes and their text are one \<^typ>\<open>string\<close>.
\<close>

definition gensalt :: "string \<Rightarrow> string" where
  "gensalt rnd = ''$2b$12$'' @ rnd"

definition hashpw :: "(string \<Rightarrow> string \<Rightarrow> string) \<Rightarrow> string \<Rightarrow> string \<Rightarrow> pyerror + string" where
  "hashpw kdf password salt =
     (if length salt < 29 then Inl ValueError
      else Inr (take 29 salt @ kdf password (take 29 salt)))"

definition checkpw :: "(string \<Rightarrow> string \<Rightarrow> string) \<Rightarrow> string \<Rightarrow> string \<Rightarrow> pyerror + bool" where
  "checkpw kdf password hashed_password =
     (case hashpw kdf password hashed_password of
        Inl e \<Rightarrow> Inl e
      | Inr ret \<Rightarrow> Inr (ret = hashed_password))"

subsection \<open>Hashing and verifying\<close>

definition hash_password :: "(string \<Rightarrow> string \<Rightarrow> string) \<Rightarrow> string \<Rightarrow> string \<Rightarrow> pyerror + string" where
  "hash_password kdf rnd plain_text_password =
     (let password_bytes = utf8_encode plain_text_password;
          salt = gensalt rnd
      in hashpw kdf password_bytes salt)"

definition verify_password :: "(string \<Rightarrow> string \<Rightarrow> string) \<Rightarrow> string \<Rightarrow> string \<Rightarrow> pyerror + bool" where
  "verify_password kdf plain_text_password hashed_password =
     (let password_bytes = utf8_encode plain_text_password;
          hashed_bytes = hashed_password
      in checkpw kdf password_bytes hashed_bytes)"

subsection \<open>The user store\<close>

text \<open>
  The store is the file \<open>users.txt\<close>: \<open>None\<close> when the file does not exist, otherwise
  its content. A line is stripped, split on the comma and unpacked into exactly two
  variables; any other number of fields raises ValueError.
\<close>

type_synonym store = "string option"

fun unpack2 :: "'a list \<Rightarrow> pyerror + ('a \<times> 'a)" where
  "unpack2 [a, b] = Inr (a, b)"
| "unpack2 _ = Inl ValueError"

definition split_line :: "string \<Rightarrow> string list" where
  "split_line line = split_on CHR '','' (strip line)"

fun user_exists_scan :: "string \<Rightarrow> string list \<Rightarrow> pyerror + bool" where
  "user_exists_scan username [] = Inr False"
| "user_exists_scan username (line # rest) =
     (case unpack2 (split_line line) of
        Inl e \<Rightarrow> Inl e
      | Inr (stored_username, _) \<Rightarrow>
          if stored_username = username then Inr True
          else user_exists_scan username rest)"

definition user_exists :: "string \<Rightarrow> store \<Rightarrow> pyerror + bool" where
  "user_exists username st =
     (case st of
        None \<Rightarrow> Inr False
      | Some content \<Rightarrow> user_exists_scan username (file_lines content))"

text \<open>
  \<open>register_user\<close> and \<open>login_user\<close> print one message and return a boolean; the model
  returns the message with the boolean, and \<open>register_user\<close> the store after the call as
  well. Opening the file for appending creates it when it is absent.
\<close>

definition append_text :: "store \<Rightarrow> string \<Rightarrow> store" where
  "append_text st txt = (case st of None \<Rightarrow> Some txt | Some content \<Rightarrow> Some (content @ txt))"

definition register_user ::
  "(string \<Rightarrow> string \<Rightarrow> string) \<Rightarrow> string \<Rightarrow> string \<Rightarrow> string \<Rightarrow> store
     \<Rightarrow> pyerror + ((string \<times> bool) \<times> store)" where
  "register_user kdf rnd username password st =
     (case user_exists username st of
        Inl e \<Rightarrow> Inl e
      | Inr True \<Rightarrow>
          Inr (('' Error: Username '' @ [CHR 0x27] @ username @ [CHR 0x27] @ '' already exists.'', False), st)
      | Inr False \<Rightarrow>
          (case hash_password kdf rnd password of
             Inl e \<Rightarrow> Inl e
           | Inr hashed \<Rightarrow>
               Inr (('' Success: User '' @ [CHR 0x27] @ username @ [CHR 0x27] @ '' registered successfully!'', True),
                    append_text st (username @ '','' @ hashed @ [CHR 0x0A]))))"

fun login_scan ::
  "(string \<Rightarrow> string \<Rightarrow> string) \<Rightarrow> string \<Rightarrow> string \<Rightarrow> string list \<Rightarrow> pyerror + (string \<times> bool)" where
  "login_scan kdf username password [] = Inr ('' Error: Username not found.'', False)"
| "login_scan kdf username password (line # rest) =
     (case unpack2 (split_line line) of
        Inl e \<Rightarrow> Inl e
      | Inr (stored_username, stored_hash) \<Rightarrow>
          if stored_username = username then
            (case verify_password kdf password stored_hash of
               Inl e \<Rightarrow> Inl e
             | Inr True \<Rightarrow> Inr ('' Success: Welcome, '' @ username @ ''!'', True)
             | Inr False \<Rightarrow> Inr ('' Error: Invalid password.'', False))
          else login_scan kdf username password rest)"

definition login_user ::
  "(string \<Rightarrow> string \<Rightarrow> string) \<Rightarrow> string \<Rightarrow> string \<Rightarrow> store \<Rightarrow> pyerror + (string \<times> bool)" where
  "login_user kdf username password st =
     (case st of
        None \<Rightarrow> Inr ('' No users registered yet.'', False)
      | Some content \<Rightarrow> login_scan kdf username password (file_lines content))"


text \<open>
  A line that the scans of \<open>user_exists\<close> and \<open>login_user\<close> pass over: it unpacks into
  two fields, and the first is not the username looked for.
\<close>

definition skipped :: "string \<Rightarrow> string \<Rightarrow> bool" where
  "skipped username line =
     (case unpack2 (split_line line) of
        Inl e \<Rightarrow> False
      | Inr (stored_username, _) \<Rightarrow> stored_username \<noteq> username)"

text \<open>
  What a call of \<open>login_user\<close> returns to its caller, and what it prints.
\<close>

definition returned :: "pyerror + (string \<times> bool) \<Rightarrow> pyerror + bool" where
  "returned r = (case r of Inl e \<Rightarrow> Inl e | Inr (message, val) \<Rightarrow> Inr val)"

definition printed :: "pyerror + (string \<times> bool) \<Rightarrow> string" where
  "printed r = (case r of Inl e \<Rightarrow> [] | Inr (message, val) \<Rightarrow> message)"

text \<open>
  A username that is read back as it was written: it has no comma and no line break and
  does not begin with whitespace. A hash that is read back as it was written: it has no
  comma and no line break and does not end with whitespace. A store to which a record
  can be appended as a line of its own: it is absent, empty, or ends with a newline.
\<close>

definition clean_username :: "string \<Rightarrow> bool" where
  "clean_username u =
     (CHR '','' \<notin> set u \<and> CHR 0x0A \<notin> set u \<and> CHR 0x0D \<notin> set u \<and>
      (case u of [] \<Rightarrow> True | c # _ \<Rightarrow> \<not> is_space c))"

definition clean_hash :: "string \<Rightarrow> bool" where
  "clean_hash h =
     (CHR '','' \<notin> set h \<and> CHR 0x0A \<notin> set h \<and> CHR 0x0D \<notin> set h \<and>
      (case rev h of [] \<Rightarrow> True | c # _ \<Rightarrow> \<not> is_space c))"

definition whole_lines :: "store \<Rightarrow> bool" where
  "whole_lines st =
     (case st of
        None \<Rightarrow> True
      | Some content \<Rightarrow> (case rev content of [] \<Rightarrow> True | c # _ \<Rightarrow> c = CHR 0x0A))"

section \<open>data_layer.py\<close>

subsection \<open>Python values and dictionaries\<close>

text \<open>
  The values that pass through the loader: what \<open>json.load\<close> returns and what a CSV
  cell is. A dictionary is an association list in insertion order; \<open>dict_set\<close> is the
  assignment \<open>d[k] = v\<close>, which overwrites in place, \<open>dict_of_pairs\<close> builds a dictionary
  from pairs in order (\<open>dict(zip(..))\<close>, a dict comprehension), and \<open>dict_get\<close> is
  \<open>d.get(k)\<close> with \<open>None\<close> for an absent key.
\<close>

datatype pyval =
    PNone
  | PBool bool
  | PInt int
  | PFloat real
  | PStr string
  | PList "pyval list"
  | PDict "(string \<times> pyval) list"

fun dict_set :: "'k \<Rightarrow> 'v \<Rightarrow> ('k \<times> 'v) list \<Rightarrow> ('k \<times> 'v) list" where
  "dict_set k v [] = [(k, v)]"
| "dict_set k v ((k', v') # d) =
     (if k' = k then (k, v) # d else (k', v') # dict_set k v d)"

definition dict_of_pairs :: "('k \<times> 'v) list \<Rightarrow> ('k \<times> 'v) list" where
  "dict_of_pairs ps = fold (\<lambda>(k, v) d. dict_set k v d) ps []"

definition dict_get :: "('k \<times> pyval) list \<Rightarrow> 'k \<Rightarrow> pyval" where
  "dict_get d k = (case map_of d k of None \<Rightarrow> PNone | Some v \<Rightarrow> v)"

fun join :: "string \<Rightarrow> string list \<Rightarrow> string" where
  "join sep [] = []"
| "join sep [x] = x"
| "join sep (x # y # ys) = x @ sep @ join sep (y # ys)"

subsection \<open>The connection\<close>

text \<open>
  The sqlite3 engine is no part of the repository. The connection is modelled by the
  operations sent over it, in order; \<open>None\<close> is the layer before \<open>connect\<close>. What the
  engine answers is a parameter: \<open>one\<close> answers \<open>cursor.execute\<close> with an exception or
  with the cursor's description (the column names), result rows and row count, and
  \<open>many\<close> answers \<open>cursor.executemany\<close> with an exception or the row count. Both see the
  operations sent before.
\<close>

datatype dbop =
    Execute string "pyval list"
  | ExecuteMany string "pyval list list"
  | Commit

type_synonym connection = "dbop list"

record cursor =
  description :: "string list"
  result_rows :: "pyval list list"
  rowcount :: int

datatype sql_result = Rows "(string \<times> pyval) list list" | RowCount int

definition ensure_conn :: "connection option \<Rightarrow> connection" where
  "ensure_conn conn = (case conn of None \<Rightarrow> [] | Some c \<Rightarrow> c)"

definition row_factory :: "string list \<Rightarrow> pyval list \<Rightarrow> (string \<times> pyval) list" where
  "row_factory descr row = dict_of_pairs (zip descr row)"

definition is_select :: "string \<Rightarrow> bool" where
  "is_select sql = startswith (lower (strip sql)) ''select''"

definition run_sql ::
  "(connection \<Rightarrow> string \<Rightarrow> pyval list \<Rightarrow> pyerror + cursor) \<Rightarrow> string \<Rightarrow> pyval list option
     \<Rightarrow> bool \<Rightarrow> connection option \<Rightarrow> (pyerror + sql_result) \<times> connection option" where
  "run_sql one sql params fetch conn =
     (let c = ensure_conn conn;
          ps = (case params of None \<Rightarrow> [] | Some p \<Rightarrow> p)
      in case one c sql ps of
           Inl e \<Rightarrow> (Inl e, Some (c @ [Execute sql ps]))
         | Inr cur \<Rightarrow>
             if is_select sql \<and> fetch
             then (Inr (Rows (map (row_factory (description cur)) (result_rows cur))),
                   Some (c @ [Execute sql ps]))
             else (Inr (RowCount (rowcount cur)), Some (c @ [Execute sql ps, Commit])))"

subsection \<open>Bulk inserts\<close>

definition insert_sql :: "string \<Rightarrow> string list \<Rightarrow> string" where
  "insert_sql table columns_to_use =
     ''INSERT INTO '' @ table @ '' ('' @ join '', '' columns_to_use @ '') VALUES (''
       @ join '','' (replicate (length columns_to_use) ''?'') @ '')''"

definition executemany ::
  "(connection \<Rightarrow> string \<Rightarrow> pyval list list \<Rightarrow> pyerror + int) \<Rightarrow> string \<Rightarrow> pyval list list
     \<Rightarrow> connection \<Rightarrow> (pyerror + int) \<times> connection" where
  "executemany many sql batch c = (many c sql batch, c @ [ExecuteMany sql batch])"

text \<open>
  The loop of \<open>insert_from_csv\<close> over the value tuples: it returns the batch left over
  and the running total, or the exception of a flush.
\<close>

fun csv_loop ::
  "(connection \<Rightarrow> string \<Rightarrow> pyval list list \<Rightarrow> pyerror + int) \<Rightarrow> string \<Rightarrow> int
     \<Rightarrow> pyval list list \<Rightarrow> pyval list list \<Rightarrow> int \<Rightarrow> connection
     \<Rightarrow> (pyerror + (pyval list list \<times> int)) \<times> connection" where
  "csv_loop many sql batch_size [] batch inserted c = (Inr (batch, inserted), c)"
| "csv_loop many sql batch_size (vals # rest) batch inserted c =
     (let batch' = batch @ [vals]
      in if int (length batch') \<ge> batch_size then
           (case executemany many sql batch' c of
              (Inl e, c') \<Rightarrow> (Inl e, c')
            | (Inr n, c') \<Rightarrow> csv_loop many sql batch_size rest [] (inserted + n) c')
         else csv_loop many sql batch_size rest batch' inserted c)"

text \<open>The part after the loop: the flush of a batch left over, then the one commit.\<close>

definition flush_rest ::
  "(connection \<Rightarrow> string \<Rightarrow> pyval list list \<Rightarrow> pyerror + int) \<Rightarrow> string
     \<Rightarrow> (pyerror + (pyval list list \<times> int)) \<times> connection
     \<Rightarrow> (pyerror + int) \<times> connection option" where
  "flush_rest many sql r =
     (case r of
        (Inl e, c) \<Rightarrow> (Inl e, Some c)
      | (Inr (batch, inserted), c) \<Rightarrow>
          if batch \<noteq> [] then
            (case executemany many sql batch c of
               (Inl e, c') \<Rightarrow> (Inl e, Some c')
             | (Inr n, c') \<Rightarrow> (Inr (inserted + n), Some (c' @ [Commit])))
          else (Inr inserted, Some (c @ [Commit])))"

text \<open>
  The csv module is part of the Python library: the file is given by the rows that
  \<open>csv.reader\<close> yields. \<open>csv.DictReader\<close> takes the first row as the field names, skips
  empty rows, and turns each other row into a dictionary: a row longer than the field
  names stores the surplus under the key \<open>None\<close>, a shorter one gets \<open>None\<close> for the
  field names left.
\<close>

definition dictreader_row :: "string list \<Rightarrow> string list \<Rightarrow> (string option \<times> pyval) list" where
  "dictreader_row fieldnames row =
     (let d = dict_of_pairs (zip (map Some fieldnames) (map PStr row));
          lf = length fieldnames;
          lr = length row
      in if lf < lr then dict_set None (PList (map PStr (drop lf row))) d
         else if lf > lr then fold (\<lambda>key. dict_set (Some key) PNone) (drop lr fieldnames) d
         else d)"

definition row_values :: "(string option \<times> pyval) list \<Rightarrow> string list \<Rightarrow> pyval list" where
  "row_values row columns = map (\<lambda>col. dict_get row (Some col)) columns"

definition dictreader_values :: "string list \<Rightarrow> string list list \<Rightarrow> pyval list list" where
  "dictreader_values fieldnames rows =
     map (\<lambda>row. row_values (dictreader_row fieldnames row) fieldnames)
       (filter (\<lambda>row. row \<noteq> []) rows)"

definition insert_from_csv ::
  "(connection \<Rightarrow> string \<Rightarrow> pyval list list \<Rightarrow> pyerror + int) \<Rightarrow> string \<Rightarrow> string list list
     \<Rightarrow> string list option \<Rightarrow> bool \<Rightarrow> int \<Rightarrow> connection option
     \<Rightarrow> (pyerror + int) \<times> connection option" where
  "insert_from_csv many table csv_rows columns has_header batch_size conn =
     (let c = ensure_conn conn
      in if has_header \<and> columns = None then
           (case csv_rows of
              [] \<Rightarrow> (Inr 0, Some c)
            | fieldnames # rest \<Rightarrow>
                if fieldnames = [] then (Inr 0, Some c)
                else flush_rest many (insert_sql table fieldnames)
                       (csv_loop many (insert_sql table fieldnames) batch_size
                          (dictreader_values fieldnames rest) [] 0 c))
         else
           (case columns of
              None \<Rightarrow> (Inl ValueError, Some c)
            | Some cols \<Rightarrow>
                flush_rest many (insert_sql table cols)
                  (csv_loop many (insert_sql table cols) batch_size
                     (map (map PStr) csv_rows) [] 0 c)))"

text \<open>
  \<open>insert_from_json\<close> works on the value that \<open>json.load\<close> returns. Its loop checks each
  element before it builds the tuple.
\<close>

fun data_list_of :: "pyval \<Rightarrow> pyerror + pyval list" where
  "data_list_of (PDict kv) = Inr [PDict kv]"
| "data_list_of (PList xs) = Inr xs"
| "data_list_of _ = Inl ValueError"

fun keys_of_first :: "pyval \<Rightarrow> pyerror + string list" where
  "keys_of_first (PDict kv) = Inr (map fst kv)"
| "keys_of_first _ = Inl ValueError"

fun json_values :: "string list \<Rightarrow> pyval \<Rightarrow> pyerror + pyval list" where
  "json_values columns_to_use (PDict kv) = Inr (map (\<lambda>col. dict_get kv col) columns_to_use)"
| "json_values columns_to_use _ = Inl ValueError"

fun json_loop ::
  "(connection \<Rightarrow> string \<Rightarrow> pyval list list \<Rightarrow> pyerror + int) \<Rightarrow> string \<Rightarrow> string list \<Rightarrow> int
     \<Rightarrow> pyval list \<Rightarrow> pyval list list \<Rightarrow> int \<Rightarrow> connection
     \<Rightarrow> (pyerror + (pyval list list \<times> int)) \<times> connection" where
  "json_loop many sql columns_to_use batch_size [] batch inserted c = (Inr (batch, inserted), c)"
| "json_loop many sql columns_to_use batch_size (obj # rest) batch inserted c =
     (case json_values columns_to_use obj of
        Inl e \<Rightarrow> (Inl e, c)
      | Inr vals \<Rightarrow>
          (let batch' = batch @ [vals]
           in if int (length batch') \<ge> batch_size then
                (case executemany many sql batch' c of
                   (Inl e, c') \<Rightarrow> (Inl e, c')
                 | (Inr n, c') \<Rightarrow>
                     json_loop many sql columns_to_use batch_size rest [] (inserted + n) c')
              else json_loop many sql columns_to_use batch_size rest batch' inserted c))"

definition insert_from_json ::
  "(connection \<Rightarrow> string \<Rightarrow> pyval list list \<Rightarrow> pyerror + int) \<Rightarrow> string \<Rightarrow> pyval
     \<Rightarrow> string list option \<Rightarrow> int \<Rightarrow> connection option
     \<Rightarrow> (pyerror + int) \<times> connection option" where
  "insert_from_json many table data columns batch_size conn =
     (let c = ensure_conn conn
      in case data_list_of data of
           Inl e \<Rightarrow> (Inl e, Some c)
         | Inr data_list \<Rightarrow>
             (case data_list of
                [] \<Rightarrow> (Inr 0, Some c)
              | first # _ \<Rightarrow>
                  (case (case columns of None \<Rightarrow> keys_of_first first | Some cols \<Rightarrow> Inr cols) of
                     Inl e \<Rightarrow> (Inl e, Some c)
                   | Inr columns_to_use \<Rightarrow>
                       flush_rest many (insert_sql table columns_to_use)
                         (json_loop many (insert_sql table columns_to_use) columns_to_use
                            batch_size data_list [] 0 c))))"

subsection \<open>What the properties are stated with\<close>

text \<open>
  An engine that accepts every multi-row insert and reports one affected row for each
  tuple: the answer of sqlite3 to an INSERT that violates nothing.
\<close>

definition accepts :: "(connection \<Rightarrow> string \<Rightarrow> pyval list list \<Rightarrow> pyerror + int) \<Rightarrow> bool" where
  "accepts many = (\<forall>c sql batch. many c sql batch = Inr (int (length batch)))"

text \<open>
  The consecutive batches of \<open>n\<close> rows of a list, the last one possibly shorter, and the
  rows that the multi-row inserts of a connection carried, in order.
\<close>

function chunks :: "nat \<Rightarrow> 'a list \<Rightarrow> 'a list list" where
  "chunks n xs = (if n = 0 \<or> xs = [] then [] else take n xs # chunks n (drop n xs))"
  by pat_completeness auto
termination
  by (relation "measure (\<lambda>(n, xs). length xs)") auto

fun inserted_rows :: "connection \<Rightarrow> pyval list list" where
  "inserted_rows [] = []"
| "inserted_rows (ExecuteMany sql batch # ops) = batch @ inserted_rows ops"
| "inserted_rows (_ # ops) = inserted_rows ops"

fun is_dict :: "pyval \<Rightarrow> bool" where
  "is_dict (PDict kv) = True"
| "is_dict _ = False"

fun is_list :: "pyval \<Rightarrow> bool" where
  "is_list (PList xs) = True"
| "is_list _ = False"

text \<open>
  The tuple that the loop of \<open>insert_from_json\<close> builds for an object, and the test for
  an array with an element that is no object.
\<close>

definition values_of :: "string list \<Rightarrow> pyval \<Rightarrow> pyval list" where
  "values_of columns_to_use obj =
     (case json_values columns_to_use obj of Inl e \<Rightarrow> [] | Inr vals \<Rightarrow> vals)"

fun non_object_element :: "pyval \<Rightarrow> bool" where
  "non_object_element (PList xs) = (\<not> list_all is_dict xs)"
| "non_object_element _ = False"

section \<open>Properties of auth.py\<close>

subsection \<open>Hashing\<close>

lemma length_gensalt: "length rnd = 22 \<Longrightarrow> length (gensalt rnd) = 29"
  by (simp add: gensalt_def)

lemma hashpw_gensalt:
  "length rnd = 22 \<Longrightarrow> hashpw kdf pw (gensalt rnd) = Inr (gensalt rnd @ kdf pw (gensalt rnd))"
  by (simp add: hashpw_def length_gensalt)


lemma hash_password_gensalt:
  "length rnd = 22 \<Longrightarrow>
   hash_password kdf rnd P = Inr (gensalt rnd @ kdf (utf8_encode P) (gensalt rnd))"
  by (simp add: hash_password_def hashpw_gensalt)




text \<open>
  Claim C2. Two calls of \<open>hash_password\<close> on the same plaintext whose random salts
  differ return different hash strings: the salt is the first part of the hash.
\<close>

theorem hash_password_salted:
  "length r1 = 22 \<Longrightarrow> length r2 = 22 \<Longrightarrow> r1 \<noteq> r2 \<Longrightarrow>
   hash_password kdf r1 P \<noteq> hash_password kdf r2 P"
proof -
  assume l1: "length r1 = 22" and l2: "length r2 = 22" and ne: "r1 \<noteq> r2"
  have "gensalt r1 \<noteq> gensalt r2"
    using ne by (simp add: gensalt_def)
  moreover have "length (gensalt r1) = length (gensalt r2)"
    using l1 l2 by (simp add: length_gensalt)
  ultimately show ?thesis
    unfolding hash_password_gensalt [OF l1] hash_password_gensalt [OF l2] by simp
qed

theorem hash_password_salted_witness:
  "length ''abcdefghijklmnopqrstuv'' = 22 \<and> length ''abcdefghijklmnopqrstuw'' = 22 \<and>
   ''abcdefghijklmnopqrstuv'' \<noteq> ''abcdefghijklmnopqrstuw'' \<and>
   hash_password (\<lambda>pw salt. rev pw) ''abcdefghijklmnopqrstuv'' ''secret1''
     \<noteq> hash_password (\<lambda>pw salt. rev pw) ''abcdefghijklmnopqrstuw'' ''secret1''"
  using hash_password_salted [of "''abcdefghijklmnopqrstuv''" "''abcdefghijklmnopqrstuw''"
      "\<lambda>pw salt. rev pw" "''secret1''"]
  by simp

subsection \<open>Scanning the store\<close>

lemma unpack2_error: "(unpack2 xs = Inl ValueError) = (length xs \<noteq> 2)"
  by (induction xs rule: unpack2.induct) simp_all

lemma user_exists_scan_skip:
  "list_all (skipped u) pre \<Longrightarrow> user_exists_scan u (pre @ rest) = user_exists_scan u rest"
  by (induction pre) (auto simp: skipped_def split: sum.splits)

lemma login_scan_skip:
  "list_all (skipped u) pre \<Longrightarrow> login_scan kdf u p (pre @ rest) = login_scan kdf u p rest"
  by (induction pre) (auto simp: skipped_def split: sum.splits)

lemma hash_then_verify:
  "hash_password kdf rnd p = Inr h \<Longrightarrow> verify_password kdf p h = Inr True"
  by (auto simp: hash_password_def verify_password_def hashpw_def checkpw_def Let_def
      split: if_splits)

text \<open>
  Claim C3, as stated, fails: a username that starts with a blank is stored, but the scan
  strips each line before it splits it, so the stored name is never found again. Here
  the second registration of \<open>" alice"\<close> succeeds and appends a second record.
\<close>

theorem register_user_twice_counterexample:
  "register_user (\<lambda>pw salt. rev pw) ''abcdefghijklmnopqrstuv'' '' alice'' ''secret1'' None =
     Inr (('' Success: User '' @ [CHR 0x27] @ '' alice'' @ [CHR 0x27] @ '' registered successfully!'', True),
          Some ('' alice,$2b$12$abcdefghijklmnopqrstuv1terces'' @ [CHR 0x0A])) \<and>
   register_user (\<lambda>pw salt. rev pw) ''abcdefghijklmnopqrstuw'' '' alice'' ''other''
       (Some ('' alice,$2b$12$abcdefghijklmnopqrstuv1terces'' @ [CHR 0x0A])) =
     Inr (('' Success: User '' @ [CHR 0x27] @ '' alice'' @ [CHR 0x27] @ '' registered successfully!'', True),
          Some ('' alice,$2b$12$abcdefghijklmnopqrstuv1terces'' @ [CHR 0x0A] @
                '' alice,$2b$12$abcdefghijklmnopqrstuwrehto'' @ [CHR 0x0A]))"
  by (simp add: register_user_def user_exists_def hash_password_def hashpw_def gensalt_def
      utf8_encode_def append_text_def split_line_def strip_def is_space_def)

subsection \<open>Writing a record and reading it back\<close>

lemma file_lines_nonempty: "s \<noteq> [] \<Longrightarrow> file_lines s \<noteq> []"
  by (cases s) (auto split: list.splits)

lemma file_lines_one: "CHR 0x0A \<notin> set l \<Longrightarrow> CHR 0x0D \<notin> set l \<Longrightarrow> file_lines (l @ [CHR 0x0A]) = [l @ [CHR 0x0A]]"
  by (induction l) auto

lemma file_lines_LF: "file_lines (CHR 0x0A # s) = [CHR 0x0A] # file_lines s"
  by simp

lemma file_lines_CR_LF: "file_lines (CHR 0x0D # CHR 0x0A # s) = [CHR 0x0A] # file_lines s"
  by simp

lemma file_lines_CR_other:
  "d \<noteq> CHR 0x0A \<Longrightarrow> file_lines (CHR 0x0D # d # s) = [CHR 0x0A] # file_lines (d # s)"
  by simp

lemma file_lines_plain:
  "x \<noteq> CHR 0x0A \<Longrightarrow> x \<noteq> CHR 0x0D \<Longrightarrow>
   file_lines (x # s) = (case file_lines s of [] \<Rightarrow> [[x]] | l # ls \<Rightarrow> (x # l) # ls)"
  by simp

lemma file_lines_append:
  "file_lines ((c @ [CHR 0x0A]) @ r) = file_lines (c @ [CHR 0x0A]) @ file_lines r"
proof (induction c rule: length_induct)
  case (1 c)
  show ?case
  proof (cases c)
    case Nil
    then show ?thesis by simp
  next
    case (Cons x cs)
    have ihcs: "file_lines ((cs @ [CHR 0x0A]) @ r) = file_lines (cs @ [CHR 0x0A]) @ file_lines r"
      using 1 Cons by simp
    have ne: "file_lines (cs @ [CHR 0x0A]) \<noteq> []"
      by (rule file_lines_nonempty) simp
    consider (lf) "x = CHR 0x0A" | (cr) "x = CHR 0x0D" | (plain) "x \<noteq> CHR 0x0A" "x \<noteq> CHR 0x0D"
      by blast
    then show ?thesis
    proof cases
      case lf
      have "file_lines ((c @ [CHR 0x0A]) @ r) = [CHR 0x0A] # file_lines ((cs @ [CHR 0x0A]) @ r)"
        unfolding Cons lf by (simp only: append_Cons file_lines_LF)
      also have "\<dots> = ([CHR 0x0A] # file_lines (cs @ [CHR 0x0A])) @ file_lines r"
        by (simp only: ihcs append_Cons)
      also have "[CHR 0x0A] # file_lines (cs @ [CHR 0x0A]) = file_lines (c @ [CHR 0x0A])"
        unfolding Cons lf by (simp only: append_Cons file_lines_LF)
      finally show ?thesis .
    next
      case cr
      show ?thesis
      proof (cases cs)
        case Nil
        then show ?thesis using Cons cr by simp
      next
        case cs: (Cons d ds)
        show ?thesis
        proof (cases "d = CHR 0x0A")
          case True
          have ihds: "file_lines ((ds @ [CHR 0x0A]) @ r) = file_lines (ds @ [CHR 0x0A]) @ file_lines r"
            using 1 Cons cs by simp
          have "file_lines ((c @ [CHR 0x0A]) @ r) = [CHR 0x0A] # file_lines ((ds @ [CHR 0x0A]) @ r)"
            unfolding Cons cs cr True by (simp only: append_Cons file_lines_CR_LF)
          also have "\<dots> = ([CHR 0x0A] # file_lines (ds @ [CHR 0x0A])) @ file_lines r"
            by (simp only: ihds append_Cons)
          also have "[CHR 0x0A] # file_lines (ds @ [CHR 0x0A]) = file_lines (c @ [CHR 0x0A])"
            unfolding Cons cs cr True by (simp only: append_Cons file_lines_CR_LF)
          finally show ?thesis .
        next
          case False
          have "file_lines ((c @ [CHR 0x0A]) @ r) = [CHR 0x0A] # file_lines ((cs @ [CHR 0x0A]) @ r)"
            unfolding Cons cr cs by (simp only: append_Cons file_lines_CR_other [OF False])
          also have "\<dots> = ([CHR 0x0A] # file_lines (cs @ [CHR 0x0A])) @ file_lines r"
            by (simp only: ihcs append_Cons)
          also have "[CHR 0x0A] # file_lines (cs @ [CHR 0x0A]) = file_lines (c @ [CHR 0x0A])"
            unfolding Cons cr cs by (simp only: append_Cons file_lines_CR_other [OF False])
          finally show ?thesis .
        qed
      qed
    next
      case plain
      obtain l ls where lls: "file_lines (cs @ [CHR 0x0A]) = l # ls"
        using ne by (cases "file_lines (cs @ [CHR 0x0A])") auto
      have "file_lines ((c @ [CHR 0x0A]) @ r) =
            (case file_lines ((cs @ [CHR 0x0A]) @ r) of [] \<Rightarrow> [[x]] | l # ls \<Rightarrow> (x # l) # ls)"
        unfolding Cons by (simp only: append_Cons file_lines_plain [OF plain])
      also have "\<dots> = ((x # l) # ls) @ file_lines r"
        by (simp only: ihcs lls append_Cons list.case)
      also have "(x # l) # ls = file_lines (c @ [CHR 0x0A])"
        unfolding Cons by (simp only: append_Cons file_lines_plain [OF plain] lls list.case)
      finally show ?thesis .
    qed
  qed
qed

lemma not_space_comma: "\<not> is_space CHR '',''"
  by (simp add: is_space_def)

lemma space_newline: "is_space CHR 0x0A"
  by (simp add: is_space_def)

lemma split_on_none: "sep \<notin> set h \<Longrightarrow> split_on sep h = [h]"
  by (induction h) auto

lemma split_on_first: "sep \<notin> set u \<Longrightarrow> split_on sep (u @ sep # r) = u # split_on sep r"
  by (induction u) auto

lemma strip_record:
  assumes "clean_username u" and "clean_hash h"
  shows "strip (u @ '','' @ h @ [CHR 0x0A]) = u @ '','' @ h"
proof -
  have front: "dropWhile is_space (u @ '','' @ h @ [CHR 0x0A]) = u @ '','' @ h @ [CHR 0x0A]"
    using assms(1) by (cases u) (simp_all add: clean_username_def not_space_comma)
  have backside: "dropWhile is_space (rev (u @ '','' @ h @ [CHR 0x0A])) = rev (u @ '','' @ h)"
    using assms(2) by (cases "rev h") (simp_all add: clean_hash_def not_space_comma space_newline)
  show ?thesis
    unfolding strip_def front backside by simp
qed

lemma split_line_record:
  assumes "clean_username u" and "clean_hash h"
  shows "split_line (u @ '','' @ h @ [CHR 0x0A]) = [u, h]"
proof -
  have "split_on CHR '','' (u @ CHR '','' # h) = [u, h]"
    using assms by (simp add: split_on_first split_on_none clean_username_def clean_hash_def)
  then show ?thesis
    unfolding split_line_def strip_record [OF assms] by simp
qed

lemma file_lines_record:
  assumes "clean_username u" and "clean_hash h"
  shows "file_lines (u @ '','' @ h @ [CHR 0x0A]) = [u @ '','' @ h @ [CHR 0x0A]]"
  using file_lines_one [of "u @ '','' @ h"] assms
  by (simp add: clean_username_def clean_hash_def)

lemma scan_false_skipped:
  "user_exists_scan u ls = Inr False \<Longrightarrow> list_all (skipped u) ls"
  by (induction ls) (auto simp: skipped_def split: sum.splits if_splits)

lemma file_lines_store_append:
  assumes "whole_lines (Some content)" and "clean_username u" and "clean_hash h"
  shows "file_lines (content @ u @ '','' @ h @ [CHR 0x0A]) =
         file_lines content @ [u @ '','' @ h @ [CHR 0x0A]]"
proof (cases "rev content")
  case Nil
  then show ?thesis
    using file_lines_record [OF assms(2,3)] by simp
next
  case (Cons c cs)
  with assms(1) have "content = rev cs @ [CHR 0x0A]"
    by (simp add: whole_lines_def rev_eq_Cons_iff)
  then show ?thesis
    using file_lines_append [of "rev cs" "u @ '','' @ h @ [CHR 0x0A]"] file_lines_record [OF assms(2,3)]
    by simp
qed

text \<open>
  Claim C3, amended. Let a call of \<open>register_user\<close> have succeeded, for a username with
  no comma and no line break that does not begin with whitespace, on a store that was
  absent, empty or ended with a newline, and let the hash it made have no comma and no
  line break and not end with whitespace. Then the call appended the record, and a
  second call with that username returns False with the message that the username
  already exists and leaves the store as it is: nothing is appended, the stored hash
  is unchanged, and a login with the original password succeeds.
\<close>

theorem register_user_second_call:
  assumes first: "register_user kdf rnd1 username password1 st = Inr ((message, True), st1)"
    and h: "hash_password kdf rnd1 password1 = Inr hashed"
    and cu: "clean_username username" and ch: "clean_hash hashed" and wl: "whole_lines st"
  shows "st1 = append_text st (username @ '','' @ hashed @ [CHR 0x0A]) \<and>
         register_user kdf rnd2 username password2 st1 =
           Inr (('' Error: Username '' @ [CHR 0x27] @ username @ [CHR 0x27] @ '' already exists.'', False), st1) \<and>
         login_user kdf username password1 st1 = Inr ('' Success: Welcome, '' @ username @ ''!'', True)"
proof -
  let ?rec = "username @ '','' @ hashed @ [CHR 0x0A]"
  from first h have ue: "user_exists username st = Inr False" and st1: "st1 = append_text st ?rec"
    by (auto simp: register_user_def split: sum.splits bool.splits)
  obtain pre where lines: "file_lines (the st1) = pre @ [?rec]" and some: "st1 \<noteq> None"
    and pre: "list_all (skipped username) pre"
  proof (cases st)
    case None
    then show ?thesis
      using that [of "[]"] st1 file_lines_record [OF cu ch] by (simp add: append_text_def)
  next
    case (Some content)
    then show ?thesis
      using that [of "file_lines content"] st1 ue wl file_lines_store_append [OF _ cu ch, of content]
      by (simp add: append_text_def user_exists_def scan_false_skipped)
  qed
  from some obtain c1 where c1: "st1 = Some c1" by auto
  have sl: "split_line ?rec = [username, hashed]"
    by (rule split_line_record [OF cu ch])
  have "user_exists username st1 = Inr True"
    using lines pre sl by (simp add: c1 user_exists_def user_exists_scan_skip)
  then have second: "register_user kdf rnd2 username password2 st1 =
           Inr (('' Error: Username '' @ [CHR 0x27] @ username @ [CHR 0x27] @ '' already exists.'', False), st1)"
    by (simp add: register_user_def)
  have login: "login_user kdf username password1 st1 = Inr ('' Success: Welcome, '' @ username @ ''!'', True)"
    using lines pre sl hash_then_verify [OF h] by (simp add: c1 login_user_def login_scan_skip)
  from st1 second login show ?thesis by simp
qed

theorem register_user_second_call_witness:
  "register_user (\<lambda>pw salt. rev pw) ''abcdefghijklmnopqrstuv'' ''alice'' ''secret1'' None =
     Inr (('' Success: User '' @ [CHR 0x27] @ ''alice'' @ [CHR 0x27] @ '' registered successfully!'', True),
          Some (''alice,$2b$12$abcdefghijklmnopqrstuv1terces'' @ [CHR 0x0A])) \<and>
   register_user (\<lambda>pw salt. rev pw) ''abcdefghijklmnopqrstuw'' ''alice'' ''other''
       (Some (''alice,$2b$12$abcdefghijklmnopqrstuv1terces'' @ [CHR 0x0A])) =
     Inr (('' Error: Username '' @ [CHR 0x27] @ ''alice'' @ [CHR 0x27] @ '' already exists.'', False),
          Some (''alice,$2b$12$abcdefghijklmnopqrstuv1terces'' @ [CHR 0x0A])) \<and>
   login_user (\<lambda>pw salt. rev pw) ''alice'' ''secret1''
       (Some (''alice,$2b$12$abcdefghijklmnopqrstuv1terces'' @ [CHR 0x0A])) =
     Inr ('' Success: Welcome, alice!'', True)"
proof -
  let ?st1 = "Some (''alice,$2b$12$abcdefghijklmnopqrstuv1terces'' @ [CHR 0x0A])"
  have a: "register_user (\<lambda>pw salt. rev pw) ''abcdefghijklmnopqrstuv'' ''alice'' ''secret1'' None =
      Inr (('' Success: User '' @ [CHR 0x27] @ ''alice'' @ [CHR 0x27] @ '' registered successfully!'', True), ?st1)"
    by (simp add: register_user_def user_exists_def hash_password_def hashpw_def gensalt_def
        utf8_encode_def append_text_def)
  have b: "hash_password (\<lambda>pw salt. rev pw) ''abcdefghijklmnopqrstuv'' ''secret1'' =
      Inr ''$2b$12$abcdefghijklmnopqrstuv1terces''"
    by (simp add: hash_password_def hashpw_def gensalt_def utf8_encode_def)
  have c: "clean_username ''alice''"
    by (simp add: clean_username_def is_space_def)
  have d: "clean_hash ''$2b$12$abcdefghijklmnopqrstuv1terces''"
    by (simp add: clean_hash_def is_space_def)
  have e: "whole_lines None"
    by (simp add: whole_lines_def)
  show ?thesis
    using a register_user_second_call [OF a b c d e, of "''abcdefghijklmnopqrstuw''" "''other''"]
    by (simp add: append_text_def)
qed

text \<open>
  Claim C7, as stated, fails: \<open>login_user\<close> returns False when there is no store file
  and returns False when the store has no record of the username, so what it returns
  does not tell the two apart.
\<close>

theorem login_user_same_return_counterexample:
  "user_exists ''bob'' (Some (''alice,h'' @ [CHR 0x0A])) = Inr False \<and>
   returned (login_user (\<lambda>pw salt. rev pw) ''bob'' ''x'' None) = Inr False \<and>
   returned (login_user (\<lambda>pw salt. rev pw) ''bob'' ''x'' (Some (''alice,h'' @ [CHR 0x0A]))) = Inr False"
  by (simp add: returned_def login_user_def user_exists_def split_line_def strip_def is_space_def)

text \<open>
  Claim C7, amended. Without a store file \<open>login_user\<close> prints that no users are
  registered yet and returns False; with a store file in which the scan passes over
  every line it prints that the username was not found and returns False. The returned
  value is the same in both cases; the message printed is what tells them apart.
\<close>

theorem login_user_no_users_message:
  "list_all (skipped username) (file_lines content) \<Longrightarrow>
   login_user kdf username password None = Inr ('' No users registered yet.'', False) \<and>
   login_user kdf username password (Some content) = Inr ('' Error: Username not found.'', False) \<and>
   returned (login_user kdf username password None) =
     returned (login_user kdf username password (Some content)) \<and>
   printed (login_user kdf username password None) \<noteq>
     printed (login_user kdf username password (Some content))"
  using login_scan_skip [of username "file_lines content" kdf password "[]"]
  by (simp add: login_user_def returned_def printed_def)

theorem login_user_no_users_message_witness:
  "list_all (skipped ''bob'') (file_lines (''alice,h'' @ [CHR 0x0A])) \<and>
   login_user (\<lambda>pw salt. rev pw) ''bob'' ''x'' None = Inr ('' No users registered yet.'', False) \<and>
   login_user (\<lambda>pw salt. rev pw) ''bob'' ''x'' (Some (''alice,h'' @ [CHR 0x0A])) =
     Inr ('' Error: Username not found.'', False) \<and>
   printed (login_user (\<lambda>pw salt. rev pw) ''bob'' ''x'' None) \<noteq>
     printed (login_user (\<lambda>pw salt. rev pw) ''bob'' ''x'' (Some (''alice,h'' @ [CHR 0x0A])))"
proof -
  have a: "list_all (skipped ''bob'') (file_lines (''alice,h'' @ [CHR 0x0A]))"
    by (simp add: skipped_def split_line_def strip_def is_space_def)
  show ?thesis
    using a login_user_no_users_message [OF a, of "\<lambda>pw salt. rev pw" "''x''"]
    by (simp add: printed_def)
qed

text \<open>
  Claim C10, as stated, fails: the scan returns at the first line whose first field is
  the username, so a malformed line after it is never read. Here the second line has
  three fields, and both functions return normally for \<open>alice\<close>.
\<close>

theorem malformed_line_counterexample:
  "file_lines (''alice,$2b$12$abcdefghijklmnopqrstuv1terces'' @ [CHR 0x0A] @ ''bob,h,admin'' @ [CHR 0x0A]) =
     [''alice,$2b$12$abcdefghijklmnopqrstuv1terces'' @ [CHR 0x0A], ''bob,h,admin'' @ [CHR 0x0A]] \<and>
   split_line (''bob,h,admin'' @ [CHR 0x0A]) = [''bob'', ''h'', ''admin''] \<and>
   user_exists ''alice''
       (Some (''alice,$2b$12$abcdefghijklmnopqrstuv1terces'' @ [CHR 0x0A] @ ''bob,h,admin'' @ [CHR 0x0A])) =
     Inr True \<and>
   login_user (\<lambda>pw salt. rev pw) ''alice'' ''secret1''
       (Some (''alice,$2b$12$abcdefghijklmnopqrstuv1terces'' @ [CHR 0x0A] @ ''bob,h,admin'' @ [CHR 0x0A])) =
     Inr ('' Success: Welcome, alice!'', True)"
  by (simp add: user_exists_def login_user_def split_line_def strip_def is_space_def
      verify_password_def checkpw_def hashpw_def utf8_encode_def)

text \<open>
  Claim C10, amended. \<open>user_exists\<close> and \<open>login_user\<close> raise ValueError whenever the scan
  reaches a line that does not split on the comma into exactly two fields, that is when
  every line before it has two fields of which the first is not the username.
\<close>

theorem malformed_line_raises:
  "file_lines content = pre @ bad # post \<Longrightarrow> list_all (skipped username) pre \<Longrightarrow>
   length (split_line bad) \<noteq> 2 \<Longrightarrow>
   user_exists username (Some content) = Inl ValueError \<and>
   login_user kdf username password (Some content) = Inl ValueError"
  by (simp add: user_exists_def login_user_def user_exists_scan_skip login_scan_skip
      unpack2_error [symmetric])

theorem malformed_line_raises_witness:
  "user_exists ''alice'' (Some (''carol,h'' @ [CHR 0x0A] @ ''bob,h,admin'' @ [CHR 0x0A] @ ''alice,h'' @ [CHR 0x0A])) =
     Inl ValueError \<and>
   login_user (\<lambda>pw salt. rev pw) ''alice'' ''x''
       (Some (''carol,h'' @ [CHR 0x0A] @ ''bob,h,admin'' @ [CHR 0x0A] @ ''alice,h'' @ [CHR 0x0A])) =
     Inl ValueError"
proof -
  let ?c = "''carol,h'' @ [CHR 0x0A] @ ''bob,h,admin'' @ [CHR 0x0A] @ ''alice,h'' @ [CHR 0x0A]"
  have a: "file_lines ?c = [''carol,h'' @ [CHR 0x0A]] @ (''bob,h,admin'' @ [CHR 0x0A]) # [''alice,h'' @ [CHR 0x0A]]"
    by simp
  have b: "list_all (skipped ''alice'') [''carol,h'' @ [CHR 0x0A]]"
    by (simp add: skipped_def split_line_def strip_def is_space_def)
  have c: "length (split_line (''bob,h,admin'' @ [CHR 0x0A])) \<noteq> 2"
    by (simp add: split_line_def strip_def is_space_def)
  show ?thesis
    using malformed_line_raises [OF a b c, of "\<lambda>pw salt. rev pw" "''x''"] by simp
qed

section \<open>Properties of data_layer.py\<close>

subsection \<open>Batches\<close>

declare chunks.simps [simp del]

lemma chunks_Nil: "chunks n [] = []"
  by (simp add: chunks.simps)

lemma chunks_step: "0 < n \<Longrightarrow> xs \<noteq> [] \<Longrightarrow> chunks n xs = take n xs # chunks n (drop n xs)"
  by (subst chunks.simps) simp

lemma chunks_short: "0 < n \<Longrightarrow> xs \<noteq> [] \<Longrightarrow> length xs \<le> n \<Longrightarrow> chunks n xs = [xs]"
  by (simp add: chunks_step chunks_Nil)

lemma chunks_full: "0 < n \<Longrightarrow> length xs = n \<Longrightarrow> chunks n (xs @ ys) = xs # chunks n ys"
  by (subst chunks_step) auto

lemma loop_chunks:
  assumes acc: "accepts many"
  shows "length batch < nat (max 1 batch_size) \<Longrightarrow>
    flush_rest many sql (csv_loop many sql batch_size vals batch inserted c) =
      (Inr (inserted + int (length batch) + int (length vals)),
       Some (c @ map (ExecuteMany sql) (chunks (nat (max 1 batch_size)) (batch @ vals)) @ [Commit]))"
proof (induction vals arbitrary: batch inserted c)
  case Nil
  then show ?case
    using acc by (cases "batch = []")
      (simp_all add: flush_rest_def executemany_def accepts_def chunks_Nil chunks_short)
next
  case (Cons v rest)
  let ?n = "nat (max 1 batch_size)"
  show ?case
  proof (cases "int (length (batch @ [v])) \<ge> batch_size")
    case True
    with Cons.prems have len: "length (batch @ [v]) = ?n" by auto
    have m: "many c sql (batch @ [v]) = Inr (int (length (batch @ [v])))"
      using acc by (simp add: accepts_def)
    have ch: "chunks ?n ((batch @ [v]) @ rest) = (batch @ [v]) # chunks ?n rest"
      using len by (intro chunks_full) auto
    have "flush_rest many sql (csv_loop many sql batch_size (v # rest) batch inserted c) =
          flush_rest many sql (csv_loop many sql batch_size rest [] (inserted + int (length (batch @ [v])))
             (c @ [ExecuteMany sql (batch @ [v])]))"
      using True m by (simp add: executemany_def Let_def)
    also have "\<dots> = (Inr (inserted + int (length (batch @ [v])) + int (length ([]::pyval list list)) + int (length rest)),
       Some ((c @ [ExecuteMany sql (batch @ [v])]) @ map (ExecuteMany sql) (chunks ?n ([] @ rest)) @ [Commit]))"
      by (rule Cons.IH) simp
    finally show ?thesis using ch by simp
  next
    case False
    then have len: "length (batch @ [v]) < ?n" by auto
    have "flush_rest many sql (csv_loop many sql batch_size (v # rest) batch inserted c) =
          flush_rest many sql (csv_loop many sql batch_size rest (batch @ [v]) inserted c)"
      using False by (simp add: Let_def)
    also have "\<dots> = (Inr (inserted + int (length (batch @ [v])) + int (length rest)),
       Some (c @ map (ExecuteMany sql) (chunks ?n ((batch @ [v]) @ rest)) @ [Commit]))"
      by (rule Cons.IH) (rule len)
    finally show ?thesis by simp
  qed
qed

lemma loop_chunks_start:
  "accepts many \<Longrightarrow>
   flush_rest many sql (csv_loop many sql batch_size vals [] 0 c) =
     (Inr (int (length vals)),
      Some (c @ map (ExecuteMany sql) (chunks (nat (max 1 batch_size)) vals) @ [Commit]))"
  using loop_chunks [of many "[]" batch_size sql vals 0 c] by simp

subsection \<open>Objects and tuples\<close>

lemma json_values_dict: "is_dict obj \<Longrightarrow> json_values cols obj = Inr (values_of cols obj)"
  by (cases obj) (simp_all add: values_of_def)

lemma json_values_other: "\<not> is_dict obj \<Longrightarrow> json_values cols obj = Inl ValueError"
  by (cases obj) simp_all

lemma json_loop_dicts:
  "list_all is_dict objs \<Longrightarrow>
   json_loop many sql cols bs objs batch inserted c =
     csv_loop many sql bs (map (values_of cols) objs) batch inserted c"
proof (induction objs arbitrary: batch inserted c)
  case Nil
  then show ?case by simp
next
  case (Cons obj rest)
  then show ?case
    by (simp add: json_values_dict Let_def split: prod.splits sum.splits)
qed

lemma json_loop_error:
  "accepts many \<Longrightarrow> \<not> list_all is_dict objs \<Longrightarrow>
   fst (json_loop many sql cols bs objs batch inserted c) = Inl ValueError"
proof (induction objs arbitrary: batch inserted c)
  case Nil
  then show ?case by simp
next
  case (Cons obj rest)
  show ?case
  proof (cases "is_dict obj")
    case False
    then show ?thesis by (simp add: json_values_other)
  next
    case True
    with Cons.prems have r: "\<not> list_all is_dict rest" by simp
    have m: "\<And>b. many c sql b = Inr (int (length b))"
      using Cons.prems(1) by (simp add: accepts_def)
    show ?thesis
      using True Cons.IH [OF Cons.prems(1) r]
      by (simp add: json_values_dict Let_def executemany_def m)
  qed
qed

lemma flush_rest_error: "fst r = Inl e \<Longrightarrow> fst (flush_rest many sql r) = Inl e"
  by (cases r) (simp add: flush_rest_def)

lemma values_of_absent:
  "j < length cols \<Longrightarrow> cols ! j \<notin> fst ` set kv \<Longrightarrow> values_of cols (PDict kv) ! j = PNone"
  by (simp add: values_of_def dict_get_def map_of_eq_None_iff [THEN iffD2])

lemma map_of_dict_set: "map_of (dict_set k v d) = (map_of d)(k \<mapsto> v)"
  by (induction d) auto

lemma map_of_fold_dict_set:
  "map_of (fold (\<lambda>(k, v) d. dict_set k v d) ps d) = map_of d ++ map_of (rev ps)"
proof (induction ps arbitrary: d)
  case Nil
  then show ?case by simp
next
  case (Cons p ps)
  obtain k v where p: "p = (k, v)" by (cases p)
  have "map_of (fold (\<lambda>(k, v) d. dict_set k v d) (p # ps) d) =
        map_of (dict_set k v d) ++ map_of (rev ps)"
    by (simp add: p Cons.IH)
  also have "\<dots> = (map_of d)(k \<mapsto> v) ++ map_of (rev ps)"
    by (simp only: map_of_dict_set)
  also have "\<dots> = map_of d ++ map_of (rev (p # ps))"
    by (auto simp: p map_add_def fun_eq_iff split: option.splits)
  finally show ?case .
qed

lemma row_factory_nth:
  assumes "length row = length descr" and "distinct descr" and "i < length row"
  shows "map_of (row_factory descr row) (descr ! i) = Some (row ! i)"
proof -
  have d: "distinct (map fst (rev (zip descr row)))"
    using assms by (simp add: rev_map [symmetric] map_fst_zip)
  have "map_of (row_factory descr row) = map_of (rev (zip descr row))"
    by (simp add: row_factory_def dict_of_pairs_def map_of_fold_dict_set)
  also have "\<dots> = map_of (zip descr row)"
    using assms(1,2) by (intro map_of_inject_set [THEN iffD2]) (simp_all add: rev_map [symmetric] map_fst_zip)
  finally show ?thesis
    using assms by (simp add: map_of_zip_nth)
qed

subsection \<open>Bulk inserts from CSV and JSON\<close>

text \<open>
  Claim C4. For a CSV source whose first row is a non-empty header, read with
  \<open>has_header\<close> and no explicit columns, on an engine that accepts every batch:
  the value tuples of the non-empty data rows are sent in consecutive batches of
  \<open>batch_size\<close> rows (of one row when \<open>batch_size\<close> is below one), each as one
  multi-row insert, the batch left over is sent after the last row, one commit follows,
  and the result is the number of rows sent. The header row is no part of them.
\<close>

theorem insert_from_csv_batches:
  "accepts many \<Longrightarrow> fieldnames \<noteq> [] \<Longrightarrow>
   insert_from_csv many table (fieldnames # rest) None True batch_size conn =
     (Inr (int (length (dictreader_values fieldnames rest))),
      Some (ensure_conn conn @
            map (ExecuteMany (insert_sql table fieldnames))
              (chunks (nat (max 1 batch_size)) (dictreader_values fieldnames rest)) @
            [Commit])) \<and>
   length (dictreader_values fieldnames rest) = length (filter (\<lambda>row. row \<noteq> []) rest)"
  by (simp add: insert_from_csv_def loop_chunks_start dictreader_values_def)

text \<open>
  The example of the spec: three data rows under the header \<open>id,name\<close> with
  \<open>batch_size = 2\<close> give one insert of two rows, one insert of one row, and 3.
\<close>

theorem insert_from_csv_batches_witness:
  "insert_from_csv (\<lambda>c sql batch. Inr (int (length batch))) ''t''
     ([''id'', ''name''] # [[''1'', ''a''], [''2'', ''b''], [''3'', ''c'']]) None True 2 None =
     (Inr 3,
      Some [ExecuteMany ''INSERT INTO t (id, name) VALUES (?,?)''
              [[PStr ''1'', PStr ''a''], [PStr ''2'', PStr ''b'']],
            ExecuteMany ''INSERT INTO t (id, name) VALUES (?,?)'' [[PStr ''3'', PStr ''c'']],
            Commit])"
proof -
  have acc: "accepts (\<lambda>c sql batch. Inr (int (length batch)))"
    by (simp add: accepts_def)
  have ne: "[''id'', ''name''] \<noteq> []"
    by simp
  have vals: "dictreader_values [''id'', ''name''] [[''1'', ''a''], [''2'', ''b''], [''3'', ''c'']] =
      [[PStr ''1'', PStr ''a''], [PStr ''2'', PStr ''b''], [PStr ''3'', PStr ''c'']]"
    by (simp add: dictreader_values_def dictreader_row_def row_values_def dict_of_pairs_def
        dict_get_def)
  have sql: "insert_sql ''t'' [''id'', ''name''] = ''INSERT INTO t (id, name) VALUES (?,?)''"
    by (simp add: insert_sql_def)
  show ?thesis
    using insert_from_csv_batches [OF acc ne, of "''t''" "[[''1'', ''a''], [''2'', ''b''], [''3'', ''c'']]" 2 None]
    by (simp add: vals sql chunks_step chunks_Nil ensure_conn_def)
qed

text \<open>
  Claim C6 fails on the code. With \<open>has_header\<close> true and an explicit column list the
  test \<open>has_header and columns is None\<close> is false, so the branch commented "No header"
  runs: \<open>csv.reader\<close> yields every row, and the header row is inserted as data.
\<close>

theorem insert_from_csv_header_inserted:
  "insert_from_csv (\<lambda>c sql batch. Inr (int (length batch))) ''t''
     [[''id'', ''name''], [''1'', ''a'']] (Some [''id'', ''name'']) True 500 None =
     (Inr 2,
      Some [ExecuteMany ''INSERT INTO t (id, name) VALUES (?,?)''
              [[PStr ''id'', PStr ''name''], [PStr ''1'', PStr ''a'']],
            Commit])"
  by (simp add: insert_from_csv_def insert_sql_def flush_rest_def executemany_def ensure_conn_def)

text \<open>
  Claim C5. For a JSON array of objects, with the columns inferred from the keys of the
  first object and an engine that accepts every batch, no exception is raised, every
  element gives one tuple, and in the tuple of an element that lacks a key of the first
  object the position of that column holds \<open>None\<close> (null).
\<close>

theorem insert_from_json_missing_keys:
  "accepts many \<Longrightarrow> list_all is_dict rest \<Longrightarrow>
   insert_from_json many table (PList (PDict kv # rest)) None batch_size conn =
     (Inr (int (length (PDict kv # rest))),
      Some (ensure_conn conn @
            map (ExecuteMany (insert_sql table (map fst kv)))
              (chunks (nat (max 1 batch_size)) (map (values_of (map fst kv)) (PDict kv # rest))) @
            [Commit])) \<and>
   (\<forall>kv' j. PDict kv' \<in> set rest \<and> j < length kv \<and> fst (kv ! j) \<notin> fst ` set kv' \<longrightarrow>
      values_of (map fst kv) (PDict kv') ! j = PNone)"
proof -
  assume acc: "accepts many" and ds: "list_all is_dict rest"
  have all: "list_all is_dict (PDict kv # rest)"
    using ds by simp
  have "insert_from_json many table (PList (PDict kv # rest)) None batch_size conn =
        flush_rest many (insert_sql table (map fst kv))
          (json_loop many (insert_sql table (map fst kv)) (map fst kv) batch_size
             (PDict kv # rest) [] 0 (ensure_conn conn))"
    by (simp add: insert_from_json_def Let_def del: json_loop.simps)
  also have "\<dots> = flush_rest many (insert_sql table (map fst kv))
          (csv_loop many (insert_sql table (map fst kv)) batch_size
             (map (values_of (map fst kv)) (PDict kv # rest)) [] 0 (ensure_conn conn))"
    by (simp only: json_loop_dicts [OF all])
  also have "\<dots> = (Inr (int (length (PDict kv # rest))),
      Some (ensure_conn conn @
            map (ExecuteMany (insert_sql table (map fst kv)))
              (chunks (nat (max 1 batch_size)) (map (values_of (map fst kv)) (PDict kv # rest))) @
            [Commit]))"
    by (simp only: loop_chunks_start [OF acc] length_map)
  finally have first: "insert_from_json many table (PList (PDict kv # rest)) None batch_size conn =
      (Inr (int (length (PDict kv # rest))),
      Some (ensure_conn conn @
            map (ExecuteMany (insert_sql table (map fst kv)))
              (chunks (nat (max 1 batch_size)) (map (values_of (map fst kv)) (PDict kv # rest))) @
            [Commit]))" .
  have second: "\<forall>kv' j. PDict kv' \<in> set rest \<and> j < length kv \<and> fst (kv ! j) \<notin> fst ` set kv' \<longrightarrow>
      values_of (map fst kv) (PDict kv') ! j = PNone"
    using values_of_absent [of _ "map fst kv"] by simp
  from first second show ?thesis by (rule conjI)
qed

theorem insert_from_json_missing_keys_witness:
  "insert_from_json (\<lambda>c sql batch. Inr (int (length batch))) ''t''
     (PList [PDict [(''id'', PInt 1), (''name'', PStr ''a'')], PDict [(''id'', PInt 2)]]) None 500 None =
     (Inr 2,
      Some [ExecuteMany ''INSERT INTO t (id, name) VALUES (?,?)''
              [[PInt 1, PStr ''a''], [PInt 2, PNone]],
            Commit]) \<and>
   values_of [''id'', ''name''] (PDict [(''id'', PInt 2)]) ! 1 = PNone"
proof -
  have acc: "accepts (\<lambda>c sql batch. Inr (int (length batch)))"
    by (simp add: accepts_def)
  have ds: "list_all is_dict [PDict [(''id'', PInt 2)]]"
    by simp
  have sql: "insert_sql ''t'' [''id'', ''name''] = ''INSERT INTO t (id, name) VALUES (?,?)''"
    by (simp add: insert_sql_def)
  have v: "values_of [''id'', ''name''] (PDict [(''id'', PInt 1), (''name'', PStr ''a'')]) = [PInt 1, PStr ''a'']"
      "values_of [''id'', ''name''] (PDict [(''id'', PInt 2)]) = [PInt 2, PNone]"
    by (simp_all add: values_of_def dict_get_def)
  note t = insert_from_json_missing_keys [OF acc ds,
      of "''t''" "[(''id'', PInt 1), (''name'', PStr ''a'')]" 500 None]
  have "PDict [(''id'', PInt 2)] \<in> set [PDict [(''id'', PInt 2)]] \<and>
        (1::nat) < length [(''id'', PInt 1), (''name'', PStr ''a'')] \<and>
        fst ([(''id'', PInt 1), (''name'', PStr ''a'')] ! 1) \<notin> fst ` set [(''id'', PInt 2)]"
    by simp
  with t have n: "values_of (map fst [(''id'', PInt 1), (''name'', PStr ''a'')]) (PDict [(''id'', PInt 2)]) ! 1 = PNone"
    by blast
  show ?thesis
    using t n by (simp add: sql v chunks_step chunks_Nil ensure_conn_def)
qed

lemma insert_from_json_all_dicts:
  assumes acc: "accepts many" and all: "list_all is_dict (first # rest)"
    and cols: "(case columns of None \<Rightarrow> keys_of_first first | Some cs \<Rightarrow> Inr cs) = Inr cols"
    and dl: "data_list_of data = Inr (first # rest)"
  shows "insert_from_json many table data columns batch_size conn =
     (Inr (int (length (first # rest))),
      Some (ensure_conn conn @
            map (ExecuteMany (insert_sql table cols))
              (chunks (nat (max 1 batch_size)) (map (values_of cols) (first # rest))) @
            [Commit]))"
proof -
  have "insert_from_json many table data columns batch_size conn =
        flush_rest many (insert_sql table cols)
          (json_loop many (insert_sql table cols) cols batch_size (first # rest) [] 0 (ensure_conn conn))"
    using cols dl by (simp add: insert_from_json_def Let_def del: json_loop.simps)
  also have "\<dots> = flush_rest many (insert_sql table cols)
          (csv_loop many (insert_sql table cols) batch_size
             (map (values_of cols) (first # rest)) [] 0 (ensure_conn conn))"
    by (simp only: json_loop_dicts [OF all])
  also have "\<dots> = (Inr (int (length (first # rest))),
      Some (ensure_conn conn @
            map (ExecuteMany (insert_sql table cols))
              (chunks (nat (max 1 batch_size)) (map (values_of cols) (first # rest))) @
            [Commit]))"
    by (simp only: loop_chunks_start [OF acc] length_map)
  finally show ?thesis .
qed

lemma insert_from_json_value_error:
  assumes acc: "accepts many"
  shows "(fst (insert_from_json many table data columns batch_size conn) = Inl ValueError) =
     ((\<not> is_dict data \<and> \<not> is_list data) \<or> non_object_element data)"
proof (cases "data_list_of data")
  case (Inl e)
  then have "\<not> is_dict data \<and> \<not> is_list data" and "e = ValueError"
    by (cases data; simp)+
  with Inl show ?thesis
    by (simp add: insert_from_json_def)
next
  case (Inr data_list)
  then have shape: "is_dict data \<or> is_list data"
    by (cases data) simp_all
  have nonobj: "non_object_element data = (\<not> list_all is_dict data_list)"
    using Inr by (cases data) auto
  show ?thesis
  proof (cases data_list)
    case Nil
    with Inr shape nonobj show ?thesis
      by (simp add: insert_from_json_def)
  next
    case (Cons first rest)
    show ?thesis
    proof (cases "case columns of None \<Rightarrow> keys_of_first first | Some cs \<Rightarrow> Inr cs")
      case (Inl e)
      then have "\<not> is_dict first" and "e = ValueError"
        by (cases columns; cases first; simp)+
      with Inl Inr Cons shape nonobj show ?thesis
        by (simp add: insert_from_json_def)
    next
      case cols: (Inr cols)
      show ?thesis
      proof (cases "list_all is_dict (first # rest)")
        case True
        have "fst (insert_from_json many table data columns batch_size conn) =
            Inr (int (length (first # rest)))"
          using insert_from_json_all_dicts [OF acc True cols, of data table batch_size conn] Inr Cons
          by simp
        with True shape nonobj Cons show ?thesis by simp
      next
        case False
        have eq: "insert_from_json many table data columns batch_size conn =
            flush_rest many (insert_sql table cols)
              (json_loop many (insert_sql table cols) cols batch_size (first # rest) [] 0 (ensure_conn conn))"
          using cols Inr Cons by (simp add: insert_from_json_def Let_def del: json_loop.simps)
        have "fst (insert_from_json many table data columns batch_size conn) = Inl ValueError"
          unfolding eq by (rule flush_rest_error) (rule json_loop_error [OF acc False])
        with False nonobj Cons show ?thesis by simp
      qed
    qed
  qed
qed

text \<open>
  Claim C9. On an engine that accepts every batch, a root that is a single object is
  inserted as one row (one multi-row insert with one tuple, one commit, result 1), and
  \<open>insert_from_json\<close> raises ValueError exactly when the root is neither an object nor an
  array, or is an array with an element that is no object.
\<close>

theorem insert_from_json_root:
  "accepts many \<Longrightarrow>
   insert_from_json many table (PDict kv) columns batch_size conn =
     (Inr 1,
      Some (ensure_conn conn @
            [ExecuteMany (insert_sql table (case columns of None \<Rightarrow> map fst kv | Some cs \<Rightarrow> cs))
               [values_of (case columns of None \<Rightarrow> map fst kv | Some cs \<Rightarrow> cs) (PDict kv)],
             Commit])) \<and>
   (fst (insert_from_json many table data columns batch_size conn) = Inl ValueError) =
     ((\<not> is_dict data \<and> \<not> is_list data) \<or> non_object_element data)"
proof -
  assume acc: "accepts many"
  let ?cols = "case columns of None \<Rightarrow> map fst kv | Some cs \<Rightarrow> cs"
  have c: "(case columns of None \<Rightarrow> keys_of_first (PDict kv) | Some cs \<Rightarrow> Inr cs) = Inr ?cols"
    by (cases columns) simp_all
  have one: "insert_from_json many table (PDict kv) columns batch_size conn =
     (Inr 1, Some (ensure_conn conn @ [ExecuteMany (insert_sql table ?cols) [values_of ?cols (PDict kv)], Commit]))"
    using insert_from_json_all_dicts [OF acc _ c, of "[]" "PDict kv" table batch_size conn]
    by (simp add: chunks_short)
  show ?thesis
    using one insert_from_json_value_error [OF acc] by simp
qed

theorem insert_from_json_root_witness:
  "insert_from_json (\<lambda>c sql batch. Inr (int (length batch))) ''t'' (PDict [(''id'', PInt 1)]) None 500 None =
     (Inr 1, Some [ExecuteMany ''INSERT INTO t (id) VALUES (?)'' [[PInt 1]], Commit]) \<and>
   fst (insert_from_json (\<lambda>c sql batch. Inr (int (length batch))) ''t''
          (PList [PDict [(''id'', PInt 1)], PInt 3]) None 500 None) = Inl ValueError \<and>
   fst (insert_from_json (\<lambda>c sql batch. Inr (int (length batch))) ''t'' (PStr ''x'') None 1 None) =
     Inl ValueError"
proof -
  have acc: "accepts (\<lambda>c sql batch. Inr (int (length batch)))"
    by (simp add: accepts_def)
  have sql: "insert_sql ''t'' [''id''] = ''INSERT INTO t (id) VALUES (?)''"
    by (simp add: insert_sql_def)
  have v: "values_of [''id''] (PDict [(''id'', PInt 1)]) = [PInt 1]"
    by (simp add: values_of_def dict_get_def)
  show ?thesis
    using insert_from_json_root [OF acc, of "''t''" "[(''id'', PInt 1)]" None 500 None
        "PList [PDict [(''id'', PInt 1)], PInt 3]"]
      insert_from_json_root [OF acc, of "''t''" "[(''id'', PInt 1)]" None 1 None "PStr ''x''"]
    by (simp add: sql v ensure_conn_def)
qed

text \<open>
  Claim C8. When the engine executes the statement, \<open>run_sql\<close> returns the fetched rows
  without a commit if the stripped, lower-cased statement starts with \<open>select\<close> and
  \<open>fetch\<close> is set, and otherwise commits and returns the cursor's row count. Each
  returned row maps the column names of the cursor's description to the values of the
  row: with distinct names, the name at position \<open>i\<close> maps to the value at position \<open>i\<close>.
\<close>

theorem run_sql_fetch_or_commit:
  "one (ensure_conn conn) sql (case params of None \<Rightarrow> [] | Some p \<Rightarrow> p) = Inr cur \<Longrightarrow>
   run_sql one sql params fetch conn =
     (if is_select sql \<and> fetch
      then (Inr (Rows (map (row_factory (description cur)) (result_rows cur))),
            Some (ensure_conn conn @ [Execute sql (case params of None \<Rightarrow> [] | Some p \<Rightarrow> p)]))
      else (Inr (RowCount (rowcount cur)),
            Some (ensure_conn conn @ [Execute sql (case params of None \<Rightarrow> [] | Some p \<Rightarrow> p), Commit]))) \<and>
   (\<forall>row \<in> set (result_rows cur). \<forall>i < length row.
      length row = length (description cur) \<and> distinct (description cur) \<longrightarrow>
      map_of (row_factory (description cur) row) (description cur ! i) = Some (row ! i))"
  by (simp add: run_sql_def Let_def row_factory_nth)

theorem run_sql_fetch_or_commit_witness:
  "run_sql (\<lambda>c sql ps. Inr \<lparr>description = [''id'', ''name''],
                             result_rows = [[PInt 1, PStr ''a'']], rowcount = - 1\<rparr>)
     ''SELECT * FROM t'' None True None =
     (Inr (Rows [[(''id'', PInt 1), (''name'', PStr ''a'')]]), Some [Execute ''SELECT * FROM t'' []]) \<and>
   run_sql (\<lambda>c sql ps. Inr \<lparr>description = [], result_rows = [], rowcount = 1\<rparr>)
     ''DELETE FROM t WHERE id = ?'' (Some [PInt 1]) False None =
     (Inr (RowCount 1), Some [Execute ''DELETE FROM t WHERE id = ?'' [PInt 1], Commit])"
proof -
  have s1: "is_select ''SELECT * FROM t''"
    by code_simp
  note a = run_sql_fetch_or_commit [where one = "\<lambda>c sql ps. Inr \<lparr>description = [''id'', ''name''],
                             result_rows = [[PInt 1, PStr ''a'']], rowcount = - 1\<rparr>"
      and conn = None and sql = "''SELECT * FROM t''" and params = None and fetch = True
      and cur = "\<lparr>description = [''id'', ''name''],
                             result_rows = [[PInt 1, PStr ''a'']], rowcount = - 1\<rparr>"]
  note b = run_sql_fetch_or_commit [where one = "\<lambda>c sql ps. Inr \<lparr>description = [], result_rows = [], rowcount = 1\<rparr>"
      and conn = None and sql = "''DELETE FROM t WHERE id = ?''" and params = "Some [PInt 1]"
      and fetch = False and cur = "\<lparr>description = [], result_rows = [], rowcount = 1\<rparr>"]
  have first: "run_sql (\<lambda>c sql ps. Inr \<lparr>description = [''id'', ''name''],
                             result_rows = [[PInt 1, PStr ''a'']], rowcount = - 1\<rparr>)
     ''SELECT * FROM t'' None True None =
     (Inr (Rows [[(''id'', PInt 1), (''name'', PStr ''a'')]]), Some [Execute ''SELECT * FROM t'' []])"
    using a s1 by (simp add: row_factory_def dict_of_pairs_def ensure_conn_def)
  have second: "run_sql (\<lambda>c sql ps. Inr \<lparr>description = [], result_rows = [], rowcount = 1\<rparr>)
     ''DELETE FROM t WHERE id = ?'' (Some [PInt 1]) False None =
     (Inr (RowCount 1), Some [Execute ''DELETE FROM t WHERE id = ?'' [PInt 1], Commit])"
    using b by (simp add: ensure_conn_def)
  from first second show ?thesis by (rule conjI)
qed

end
